theory Spec2Isabelle
  imports Main "HOL-Library.Sublist"
begin

section \<open>Python strings\<close>

text \<open>
  The source is \<^verbatim>\<open>Website Creating Automation/website_automation.py\<close>. A Python
  \<^verbatim>\<open>str\<close> is modelled as a \<open>string\<close>, one \<open>char\<close> per code point (code points
  0 to 255), Python's unbounded integers as \<open>int\<close>. The log file written by
  \<^verbatim>\<open>log_message\<close> is the list of the lines appended to it, passed through every
  function that logs.
\<close>

definition py_index :: "nat \<Rightarrow> int \<Rightarrow> nat" where
  \<comment> \<open>a slice bound, as Python clamps it: negative bounds count from the end\<close>
  "py_index len i = (if i < 0 then nat (max 0 (int len + i)) else min (nat i) len)"

definition slice_from :: "string \<Rightarrow> int \<Rightarrow> string" where
  \<comment> \<open>\<^verbatim>\<open>s[i:]\<close>\<close>
  "slice_from s i = drop (py_index (length s) i) s"

definition slice_to :: "string \<Rightarrow> int \<Rightarrow> string" where
  \<comment> \<open>\<^verbatim>\<open>s[:j]\<close>\<close>
  "slice_to s j = take (py_index (length s) j) s"

definition slice :: "string \<Rightarrow> int \<Rightarrow> int \<Rightarrow> string" where
  \<comment> \<open>\<^verbatim>\<open>s[i:j]\<close>\<close>
  "slice s i j =
     take (py_index (length s) j - py_index (length s) i) (drop (py_index (length s) i) s)"

fun find_prefix :: "string \<Rightarrow> string \<Rightarrow> nat option" where
  \<comment> \<open>the least offset at which \<open>sub\<close> occurs in the text\<close>
  "find_prefix sub [] = (if sub = [] then Some 0 else None)"
| "find_prefix sub (c # cs) =
     (if prefix sub (c # cs) then Some 0 else map_option Suc (find_prefix sub cs))"

definition py_find :: "string \<Rightarrow> string \<Rightarrow> int \<Rightarrow> int" where
  \<comment> \<open>\<^verbatim>\<open>s.find(sub, start)\<close>: the lowest index at or after \<open>start\<close>, or -1\<close>
  "py_find s sub start =
     (let st = (if start < 0 then max 0 (int (length s) + start) else start)
      in if int (length s) < st then - 1
         else case find_prefix sub (drop (nat st) s) of
                None \<Rightarrow> - 1
              | Some k \<Rightarrow> st + int k)"

definition digit_char :: "nat \<Rightarrow> char" where
  "digit_char d = ''0123456789'' ! d"

function str_nat :: "nat \<Rightarrow> string" where
  "str_nat n = (if n < 10 then [digit_char n] else str_nat (n div 10) @ [digit_char (n mod 10)])"
  by pat_completeness auto
termination
  by (relation "measure (\<lambda>n. n)") auto

declare str_nat.simps [simp del]

definition str_int :: "int \<Rightarrow> string" where
  \<comment> \<open>\<^verbatim>\<open>str(i)\<close>, as an f-string renders an integer\<close>
  "str_int i = (if i < 0 then ''-'' @ str_nat (nat (- i)) else str_nat (nat i))"

section \<open>Logging\<close>

type_synonym log = "string list"

datatype error = SystemExit int | IndexError

definition log_message :: "string \<Rightarrow> log \<Rightarrow> log" where
  "log_message message lg = lg @ [message]"

definition log_and_terminate :: "string \<Rightarrow> log \<Rightarrow> error \<times> log" where
  \<comment> \<open>logs, then \<^verbatim>\<open>sys.exit(1)\<close>\<close>
  "log_and_terminate message lg = (SystemExit 1, log_message (''ERROR: '' @ message) lg)"

section \<open>Marker Locator\<close>

text \<open>
  The loop of \<^verbatim>\<open>find_nth_occurrence\<close> is \<^verbatim>\<open>while True\<close>: it leaves by one of
  its two \<^verbatim>\<open>return\<close>s only, so it is a partial function, \<open>None\<close> when it never
  returns.
\<close>

partial_function (option) find_nth_loop ::
  "string \<Rightarrow> string \<Rightarrow> int \<Rightarrow> int \<Rightarrow> int \<Rightarrow> int option" where
  "find_nth_loop content substring n start count =
     (let index = py_find content substring start
      in if index = - 1 then Some (- 1)
         else if count + 1 = n then Some index
         else find_nth_loop content substring n (index + int (length substring)) (count + 1))"

declare find_nth_loop.simps [code]

definition find_nth_occurrence :: "string \<Rightarrow> string \<Rightarrow> int \<Rightarrow> int option" where
  "find_nth_occurrence content substring n = find_nth_loop content substring n 0 0"

text \<open>
  The locator in the words of the specification: scan left to right, and after each
  match move the cursor by the length of the marker; the answer is the n-th offset
  collected, or the sentinel.
\<close>

function locate_offsets :: "string \<Rightarrow> string \<Rightarrow> nat \<Rightarrow> nat list" where
  "locate_offsets content marker cursor =
     (if marker = [] \<or> length content < cursor + length marker then []
      else if prefix marker (drop cursor content)
           then cursor # locate_offsets content marker (cursor + length marker)
           else locate_offsets content marker (Suc cursor))"
  by pat_completeness auto
termination
proof (relation "measure (\<lambda>(content, marker, cursor). Suc (length content) - cursor)")
  fix content marker :: string and cursor :: nat
  assume "\<not> (marker = [] \<or> length content < cursor + length marker)"
  then have "marker \<noteq> []" and "cursor + length marker \<le> length content"
    by auto
  then show "((content, marker, cursor + length marker), content, marker, cursor)
      \<in> measure (\<lambda>(content, marker, cursor). Suc (length content) - cursor)"
    by (cases marker) auto
qed auto

declare locate_offsets.simps [simp del]

definition locate_spec :: "string \<Rightarrow> string \<Rightarrow> int \<Rightarrow> int" where
  "locate_spec content marker n =
     (let offsets = locate_offsets content marker 0
      in if nat n \<le> length offsets then int (offsets ! (nat n - 1)) else - 1)"

section \<open>Segment Engine\<close>

definition start_not_found :: "string \<Rightarrow> int \<Rightarrow> string" where
  "start_not_found search_start_marker start_occurrence =
     ''Search start marker '' @ [CHR 0x27] @ search_start_marker @ [CHR 0x27]
       @ '' (occurrence '' @ str_int start_occurrence @ '') not found in HTML.''"

definition end_not_found :: "string \<Rightarrow> int \<Rightarrow> string \<Rightarrow> string" where
  "end_not_found search_end_marker end_occurrence search_start_marker =
     ''Search end marker '' @ [CHR 0x27] @ search_end_marker @ [CHR 0x27]
       @ '' (occurrence '' @ str_int end_occurrence
       @ '') not found in HTML after start marker '' @ [CHR 0x27] @ search_start_marker
       @ [CHR 0x27] @ ''.''"

definition replace_segment_in_html ::
  "string \<Rightarrow> string \<Rightarrow> string \<Rightarrow> string \<Rightarrow> int \<Rightarrow> int \<Rightarrow> log \<Rightarrow> (string \<times> log) option" where
  "replace_segment_in_html html_content search_start_marker search_end_marker
       replacement_text start_occurrence end_occurrence lg =
     (case find_nth_occurrence html_content search_start_marker start_occurrence of
        None \<Rightarrow> None
      | Some start_index \<Rightarrow>
          let lg1 = (if start_index = - 1
                     then log_message (''Error: ''
                            @ start_not_found search_start_marker start_occurrence) lg
                     else lg)
          in case find_nth_occurrence
                    (slice_from html_content (start_index + int (length search_start_marker)))
                    search_end_marker end_occurrence of
               None \<Rightarrow> None
             | Some end_index \<Rightarrow>
                 let lg2 = (if end_index = - 1
                            then log_message (''Error: ''
                                   @ end_not_found search_end_marker end_occurrence
                                       search_start_marker) lg1
                            else lg1);
                     end_index' = start_index + int (length search_start_marker) + end_index;
                     before = slice_to html_content start_index;
                     after = slice_from html_content
                               (end_index' + int (length search_end_marker))
                 in Some (before @ replacement_text @ after, lg2))"

definition get_segment_in_html ::
  "string \<Rightarrow> string \<Rightarrow> string \<Rightarrow> int \<Rightarrow> int \<Rightarrow> log \<Rightarrow> ((error + string) \<times> log) option" where
  "get_segment_in_html html_content search_start_marker search_end_marker
       start_occurrence end_occurrence lg =
     (case find_nth_occurrence html_content search_start_marker start_occurrence of
        None \<Rightarrow> None
      | Some start_index \<Rightarrow>
          if start_index = - 1
          then (case log_and_terminate
                       (start_not_found search_start_marker start_occurrence) lg of
                  (e, lg') \<Rightarrow> Some (Inl e, lg'))
          else case find_nth_occurrence
                      (slice_from html_content (start_index + int (length search_start_marker)))
                      search_end_marker end_occurrence of
                 None \<Rightarrow> None
               | Some end_index \<Rightarrow>
                   if end_index = - 1
                   then (case log_and_terminate
                                (end_not_found search_end_marker end_occurrence
                                   search_start_marker) lg of
                           (e, lg') \<Rightarrow> Some (Inl e, lg'))
                   else let end_index' =
                              start_index + int (length search_start_marker) + end_index
                        in Some (Inr (slice html_content start_index
                                        (end_index' + int (length search_end_marker))), lg))"

section \<open>Bulk Marker Replacer\<close>

text \<open>
  The dictionary \<^verbatim>\<open>markers\<close> is iterated in insertion order, so it is an association
  list. The inner loop is \<^verbatim>\<open>while True\<close> and leaves by \<^verbatim>\<open>break\<close> only.
\<close>

definition unmatched_start :: "string \<Rightarrow> string \<Rightarrow> string" where
  "unmatched_start start_marker end_marker =
     ''Unmatched start marker '' @ [CHR 0x27] @ start_marker @ [CHR 0x27]
       @ '' found without corresponding end marker '' @ [CHR 0x27] @ end_marker
       @ [CHR 0x27] @ ''.''"

partial_function (option) replace_pair_loop ::
  "string \<Rightarrow> string \<Rightarrow> string \<Rightarrow> string \<Rightarrow> string \<Rightarrow> log \<Rightarrow> (string \<times> log) option" where
  "replace_pair_loop start_marker end_marker start_tag end_tag updated_html lg =
     (let start_idx = py_find updated_html start_marker 0
      in if start_idx = - 1 then Some (updated_html, lg)
         else let end_idx = py_find updated_html end_marker
                              (start_idx + int (length start_marker))
              in if end_idx = - 1
                 then Some (updated_html,
                        log_message (unmatched_start start_marker end_marker) lg)
                 else replace_pair_loop start_marker end_marker start_tag end_tag
                        (slice_to updated_html start_idx
                           @ (start_tag
                                @ slice updated_html (start_idx + int (length start_marker))
                                    end_idx
                                @ end_tag)
                           @ slice_from updated_html (end_idx + int (length end_marker)))
                        lg)"

declare replace_pair_loop.simps [code]

fun replace_all_markers_in_html ::
  "string \<Rightarrow> ((string \<times> string) \<times> (string \<times> string)) list \<Rightarrow> log
     \<Rightarrow> (string \<times> log) option" where
  "replace_all_markers_in_html updated_html [] lg = Some (updated_html, lg)"
| "replace_all_markers_in_html updated_html
       (((start_marker, end_marker), (start_tag, end_tag)) # markers) lg =
     (case replace_pair_loop start_marker end_marker start_tag end_tag updated_html lg of
        None \<Rightarrow> None
      | Some (updated_html', lg') \<Rightarrow> replace_all_markers_in_html updated_html' markers lg')"

section \<open>More Python string operations\<close>

definition is_space :: "char \<Rightarrow> bool" where
  \<comment> \<open>\<^verbatim>\<open>str.isspace\<close> and the regular expression \<^verbatim>\<open>\s\<close>, on code points below 256\<close>
  "is_space c =
     (let n = (of_char c :: nat)
      in (9 \<le> n \<and> n \<le> 13) \<or> (28 \<le> n \<and> n \<le> 32) \<or> n = 133 \<or> n = 160)"

definition is_digit :: "char \<Rightarrow> bool" where
  \<comment> \<open>\<^verbatim>\<open>[0-9]\<close>, and \<^verbatim>\<open>\d\<close> on code points below 256\<close>
  "is_digit c = (let n = (of_char c :: nat) in 48 \<le> n \<and> n \<le> 57)"

definition strip :: "string \<Rightarrow> string" where
  "strip s = rev (dropWhile is_space (rev (dropWhile is_space s)))"

fun join :: "string \<Rightarrow> string list \<Rightarrow> string" where
  "join sep [] = []"
| "join sep [x] = x"
| "join sep (x # y # ys) = x @ sep @ join sep (y # ys)"

function py_replace :: "string \<Rightarrow> string \<Rightarrow> string \<Rightarrow> string" where
  \<comment> \<open>\<^verbatim>\<open>s.replace(old, new)\<close>: every occurrence, left to right, without overlap\<close>
  "py_replace old new [] = (if old = [] then new else [])"
| "py_replace old new (c # cs) =
     (if old = [] then new @ concat (map (\<lambda>x. x # new) (c # cs))
      else if prefix old (c # cs) then new @ py_replace old new (drop (length old) (c # cs))
      else c # py_replace old new cs)"
  by pat_completeness auto
termination
proof (relation "measure (\<lambda>(old, new, s). length s)")
  fix old new cs :: string and c :: char
  assume "old \<noteq> []"
  then show "((old, new, drop (length old) (c # cs)), old, new, c # cs)
      \<in> measure (\<lambda>(old, new, s). length s)"
    by (cases old) auto
qed auto

definition html_escape :: "string \<Rightarrow> string" where
  \<comment> \<open>\<^verbatim>\<open>x.replace("&", "&amp;").replace("<", "&lt;").replace(">", "&gt;")\<close>\<close>
  "html_escape content =
     py_replace ''>'' ''&gt;'' (py_replace ''<'' ''&lt;'' (py_replace ''&'' ''&amp;'' content))"

section \<open>Nested List Converter\<close>

text \<open>
  \<^verbatim>\<open>docx_to_html_with_docx2python\<close> reads the document with \<^verbatim>\<open>docx2python\<close>; the
  model starts from the paragraphs of the document body, in order. The two variables
  that the nested functions share are the fields of the state.
\<close>

record converter =
  html_fragments :: "string list"
  list_stack :: "string list"

definition pop_and_close :: "converter \<Rightarrow> converter" where
  \<comment> \<open>\<^verbatim>\<open>tag = list_stack.pop(); html_fragments.append(f"</{tag}>")\<close>, on a non-empty stack\<close>
  "pop_and_close st =
     st\<lparr>html_fragments := html_fragments st @ [''</'' @ last (list_stack st) @ ''>''],
        list_stack := butlast (list_stack st)\<rparr>"

function close_all_lists :: "converter \<Rightarrow> converter" where
  "close_all_lists st =
     (if list_stack st \<noteq> [] then close_all_lists (pop_and_close st) else st)"
  by pat_completeness auto
termination
  by (relation "measure (\<lambda>st. length (list_stack st))") (auto simp: pop_and_close_def)

declare close_all_lists.simps [simp del]

function close_to_level :: "nat \<Rightarrow> converter \<Rightarrow> converter" where
  "close_to_level level st =
     (if level < length (list_stack st) then close_to_level level (pop_and_close st) else st)"
  by pat_completeness auto
termination
  by (relation "measure (\<lambda>(level, st). length (list_stack st))") (auto simp: pop_and_close_def)

declare close_to_level.simps [simp del]

definition open_list :: "string \<Rightarrow> converter \<Rightarrow> converter" where
  "open_list list_type st =
     st\<lparr>html_fragments := html_fragments st @ [''<'' @ list_type @ ''>''],
        list_stack := list_stack st @ [list_type]\<rparr>"

function open_to_depth :: "string \<Rightarrow> nat \<Rightarrow> converter \<Rightarrow> converter" where
  \<comment> \<open>\<^verbatim>\<open>while len(list_stack) < desired_depth: open_list(current_type)\<close>\<close>
  "open_to_depth current_type desired_depth st =
     (if length (list_stack st) < desired_depth
      then open_to_depth current_type desired_depth (open_list current_type st)
      else st)"
  by pat_completeness auto
termination
  by (relation "measure (\<lambda>(current_type, desired_depth, st).
        desired_depth - length (list_stack st))") (auto simp: open_list_def)

declare open_to_depth.simps [simp del]

definition indent_level :: "string \<Rightarrow> nat" where
  \<comment> \<open>the length of the match of \<^verbatim>\<open>^(\t+)\<close>, 0 without a match\<close>
  "indent_level paragraph = length (takeWhile (\<lambda>c. c = CHR 0x09) paragraph)"

definition bullet_match :: "string \<Rightarrow> bool" where
  \<comment> \<open>\<^verbatim>\<open>re.match(r"^--\t", line_stripped)\<close>\<close>
  "bullet_match line_stripped = prefix (''--'' @ [CHR 0x09]) line_stripped"

definition number_match :: "string \<Rightarrow> nat option" where
  \<comment> \<open>\<^verbatim>\<open>re.match(r"^[0-9]+[\.)]\\s?", line_stripped)\<close>, the length of the match: in the
      raw string the pattern ends with an escaped backslash and an optional letter s\<close>
  "number_match line_stripped =
     (let digits = takeWhile is_digit line_stripped
      in if digits = [] then None
         else case drop (length digits) line_stripped of
                [] \<Rightarrow> None
              | c # rest \<Rightarrow>
                  if c = CHR ''.'' \<or> c = CHR '')''
                  then (case rest of
                          [] \<Rightarrow> None
                        | b # rest' \<Rightarrow>
                            if b = CHR 0x5C
                            then Some (length digits + 2 + (if prefix ''s'' rest' then 1 else 0))
                            else None)
                  else None)"

definition item_content :: "string \<Rightarrow> string" where
  \<comment> \<open>the list item without its marker: the two \<^verbatim>\<open>re.sub\<close> calls\<close>
  "item_content line_stripped =
     (if bullet_match line_stripped then drop 3 line_stripped
      else case number_match line_stripped of
             Some k \<Rightarrow> drop k line_stripped
           | None \<Rightarrow> line_stripped)"

definition adjust_stack :: "string \<Rightarrow> nat \<Rightarrow> converter \<Rightarrow> converter" where
  \<comment> \<open>``Adjust the current list stack depth'': the \<^verbatim>\<open>if\<close>/\<^verbatim>\<open>elif\<close>/\<^verbatim>\<open>else\<close> on
      \<^verbatim>\<open>len(list_stack)\<close>; in the last branch the stack is not empty, its depth being
      \<^verbatim>\<open>indent_level + 1\<close>\<close>
  "adjust_stack current_type desired_depth st =
     (if desired_depth < length (list_stack st) then close_to_level desired_depth st
      else if length (list_stack st) < desired_depth
      then open_to_depth current_type desired_depth st
      else if last (list_stack st) \<noteq> current_type
      then open_list current_type (close_to_level (desired_depth - 1) st)
      else st)"

definition process_paragraph :: "string \<Rightarrow> string \<Rightarrow> string \<Rightarrow> converter \<Rightarrow> converter" where
  \<comment> \<open>the body of \<^verbatim>\<open>for paragraph in paragraphs\<close>\<close>
  "process_paragraph p_start p_end paragraph st =
     (let line_stripped = drop (indent_level paragraph) paragraph;
          current_type = (if bullet_match line_stripped then Some ''ul''
                          else if number_match line_stripped \<noteq> None then Some ''ol''
                          else None)
      in case current_type of
           Some list_type \<Rightarrow>
             let st1 = adjust_stack list_type (indent_level paragraph + 1) st
             in st1\<lparr>html_fragments := html_fragments st1
                      @ [''<li>'' @ html_escape (item_content line_stripped) @ ''</li>'']\<rparr>
         | None \<Rightarrow>
             let st1 = close_all_lists st
             in st1\<lparr>html_fragments := html_fragments st1
                      @ [p_start @ html_escape paragraph @ p_end]\<rparr>)"

definition convert_paragraphs ::
  "string list \<Rightarrow> string \<Rightarrow> string \<Rightarrow> string \<Rightarrow> converter" where
  \<comment> \<open>the state after the loop over the non-empty paragraphs\<close>
  "convert_paragraphs body entire_start p_start p_end =
     foldl (\<lambda>st paragraph. process_paragraph p_start p_end paragraph st)
       \<lparr>html_fragments = (if entire_start \<noteq> [] then [entire_start] else []), list_stack = []\<rparr>
       (filter (\<lambda>paragraph. strip paragraph \<noteq> []) body)"

definition docx_fragments ::
  "string list \<Rightarrow> string \<Rightarrow> string \<Rightarrow> string \<Rightarrow> string \<Rightarrow> string list" where
  "docx_fragments body entire_start entire_end p_start p_end =
     html_fragments (close_all_lists (convert_paragraphs body entire_start p_start p_end))
       @ (if entire_end \<noteq> [] then [entire_end] else [])"

definition docx_to_html_with_docx2python ::
  "string list \<Rightarrow> string \<Rightarrow> string \<Rightarrow> string \<Rightarrow> string \<Rightarrow> string" where
  "docx_to_html_with_docx2python body entire_start entire_end p_start p_end =
     join [CHR 0x0A] (docx_fragments body entire_start entire_end p_start p_end)"

section \<open>Markdown Converter\<close>

definition is_linebreak :: "char \<Rightarrow> bool" where
  \<comment> \<open>the line boundaries of \<^verbatim>\<open>str.splitlines\<close> below 256, apart from the carriage return\<close>
  "is_linebreak c =
     (let n = (of_char c :: nat) in (10 \<le> n \<and> n \<le> 12) \<or> (28 \<le> n \<and> n \<le> 30) \<or> n = 133)"

fun splitlines_from :: "string \<Rightarrow> string \<Rightarrow> string list" where
  \<comment> \<open>the first argument is the line read so far, last character first\<close>
  "splitlines_from cur [] = (if cur = [] then [] else [rev cur])"
| "splitlines_from cur [c] =
     (if c = CHR 0x0D \<or> is_linebreak c then [rev cur] else [rev (c # cur)])"
| "splitlines_from cur (c # d # cs) =
     (if c = CHR 0x0D \<and> d = CHR 0x0A then rev cur # splitlines_from [] cs
      else if c = CHR 0x0D \<or> is_linebreak c then rev cur # splitlines_from [] (d # cs)
      else splitlines_from (c # cur) (d # cs))"

definition splitlines :: "string \<Rightarrow> string list" where
  "splitlines s = splitlines_from [] s"

fun split_char :: "char \<Rightarrow> string \<Rightarrow> string list" where
  \<comment> \<open>\<^verbatim>\<open>s.split(c)\<close> for a separator of one character\<close>
  "split_char sep [] = [[]]"
| "split_char sep (c # cs) =
     (if c = sep then [] # split_char sep cs
      else case split_char sep cs of
             [] \<Rightarrow> [[c]]
           | part # parts \<Rightarrow> (c # part) # parts)"

definition split_once :: "string \<Rightarrow> string \<Rightarrow> string list" where
  \<comment> \<open>\<^verbatim>\<open>s.split(sep, 1)\<close>\<close>
  "split_once sep s =
     (case find_prefix sep s of
        None \<Rightarrow> [s]
      | Some k \<Rightarrow> [take k s, drop (k + length sep) s])"

function bold :: "string \<Rightarrow> string" where
  \<comment> \<open>\<^verbatim>\<open>re.sub(r"\*\*(.*?)\*\*", r"<strong>\1</strong>", text)\<close>: at each position the
      shortest match, whose inner text holds no newline\<close>
  "bold [] = []"
| "bold (c # cs) =
     (if prefix ''**'' (c # cs)
      then (case find_prefix ''**'' (drop 2 (c # cs)) of
              Some k \<Rightarrow>
                if CHR 0x0A \<in> set (take k (drop 2 (c # cs))) then c # bold cs
                else ''<strong>'' @ take k (drop 2 (c # cs)) @ ''</strong>''
                       @ bold (drop (k + 4) (c # cs))
            | None \<Rightarrow> c # bold cs)
      else c # bold cs)"
  by pat_completeness auto
termination
  by (relation "measure length") auto

record markdown =
  html_lines :: "string list"
  in_list :: bool
  in_ordered_list :: bool
  in_paragraph :: bool

definition append_line :: "string \<Rightarrow> markdown \<Rightarrow> markdown" where
  "append_line l st = st\<lparr>html_lines := html_lines st @ [l]\<rparr>"

definition close_paragraph :: "markdown \<Rightarrow> markdown" where
  "close_paragraph st =
     (if in_paragraph st then (append_line ''</p>'' st)\<lparr>in_paragraph := False\<rparr> else st)"

definition close_list :: "markdown \<Rightarrow> markdown" where
  "close_list st =
     (let st1 = (if in_list st then (append_line ''</ul>'' st)\<lparr>in_list := False\<rparr> else st)
      in if in_ordered_list st1 then (append_line ''</ol>'' st1)\<lparr>in_ordered_list := False\<rparr>
         else st1)"

definition heading_level :: "string \<Rightarrow> nat" where
  \<comment> \<open>the length of group 1 of \<^verbatim>\<open>(#+)\s*(H\d)?(:\s*)?(.*)\<close>\<close>
  "heading_level line = length (takeWhile (\<lambda>c. c = CHR ''#'') line)"

definition heading_text :: "string \<Rightarrow> string" where
  \<comment> \<open>group 4 of the same match, stripped\<close>
  "heading_text line =
     (let r1 = dropWhile is_space (dropWhile (\<lambda>c. c = CHR ''#'') line);
          r2 = (case r1 of
                  h # d # rest \<Rightarrow> if h = CHR ''H'' \<and> is_digit d then rest else r1
                | _ \<Rightarrow> r1);
          r3 = (case r2 of
                  c # rest \<Rightarrow> if c = CHR '':'' then dropWhile is_space rest else r2
                | [] \<Rightarrow> r2)
      in strip (takeWhile (\<lambda>c. c \<noteq> CHR 0x0A) r3))"

definition ordered_match :: "string \<Rightarrow> bool" where
  \<comment> \<open>\<^verbatim>\<open>re.match(r"\d+\.\s", line)\<close>\<close>
  "ordered_match line =
     (let digits = takeWhile is_digit line
      in digits \<noteq> [] \<and>
         (case drop (length digits) line of
            dot # sp # rest \<Rightarrow> dot = CHR ''.'' \<and> is_space sp
          | _ \<Rightarrow> False))"

fun sublines_loop :: "string \<Rightarrow> string list \<Rightarrow> markdown \<Rightarrow> markdown" where
  \<comment> \<open>\<^verbatim>\<open>for subline in sublines\<close>; the first argument is \<^verbatim>\<open>sublines[-1]\<close>\<close>
  "sublines_loop final [] st = st"
| "sublines_loop final (subline # rest) st =
     (let subline1 = strip subline
      in if subline1 \<noteq> []
         then let subline2 = bold subline1;
                  st1 = close_paragraph (append_line subline2 st);
                  st2 = (if subline2 \<noteq> final
                         then (append_line ''<p>'' st1)\<lparr>in_paragraph := True\<rparr>
                         else st1)
              in sublines_loop final rest st2
         else sublines_loop final rest st)"

definition ul_open :: string where
  "ul_open = ''<ul class='' @ [CHR 0x22] @ ''list'' @ [CHR 0x22] @ '' role='' @ [CHR 0x22]
     @ ''list'' @ [CHR 0x22] @ ''>''"

definition ol_open :: string where
  "ol_open = ''<ol class='' @ [CHR 0x22] @ ''list'' @ [CHR 0x22] @ '' role='' @ [CHR 0x22]
     @ ''list'' @ [CHR 0x22] @ ''>''"

definition process_line :: "string \<Rightarrow> markdown \<Rightarrow> error + markdown" where
  \<comment> \<open>the body of \<^verbatim>\<open>for line in markdown_text.splitlines()\<close>\<close>
  "process_line raw st =
     (let line = strip raw
      in if prefix ''#'' line
         then let st1 = close_list (close_paragraph st);
                  level = heading_level line
              in Inr (if 1 \<le> level \<and> level \<le> 6
                      then append_line (''<h'' @ str_int (int level) @ ''>'' @ heading_text line
                             @ ''</h'' @ str_int (int level) @ ''>'') st1
                      else st1)
         else if prefix ''- '' line
         then let st1 = close_paragraph st;
                  st2 = (if \<not> in_list st1 then (append_line ul_open st1)\<lparr>in_list := True\<rparr>
                         else st1)
              in Inr (append_line (''  <li>'' @ bold (strip (slice_from line 2)) @ ''</li>'') st2)
         else let st1 = (if in_list st then (append_line ''</ul>'' st)\<lparr>in_list := False\<rparr>
                         else st)
              in if ordered_match line
                 then let st2 = close_paragraph st1;
                          st3 = (if \<not> in_ordered_list st2
                                 then (append_line ol_open st2)\<lparr>in_ordered_list := True\<rparr>
                                 else st2)
                      in case split_once ''. '' line of
                           [before, after] \<Rightarrow>
                             Inr (append_line (''<li>'' @ bold (strip after) @ ''</li>'') st3)
                         | _ \<Rightarrow> Inl IndexError
                 else let st2 = (if in_ordered_list st1
                                 then (append_line ''</ol>'' st1)\<lparr>in_ordered_list := False\<rparr>
                                 else st1);
                          st3 = (if \<not> in_paragraph st2
                                 then (append_line ''<p>'' st2)\<lparr>in_paragraph := True\<rparr>
                                 else st2);
                          sublines = split_char (CHR 0x0A) line
                      in Inr (sublines_loop (last sublines) sublines st3))"

fun process_lines :: "string list \<Rightarrow> markdown \<Rightarrow> error + markdown" where
  "process_lines [] st = Inr st"
| "process_lines (raw # raws) st =
     (case process_line raw st of
        Inl e \<Rightarrow> Inl e
      | Inr st' \<Rightarrow> process_lines raws st')"

definition markdown_start :: markdown where
  "markdown_start =
     \<lparr>html_lines = [], in_list = False, in_ordered_list = False, in_paragraph = False\<rparr>"

definition markdown_to_html :: "string \<Rightarrow> error + string" where
  "markdown_to_html markdown_text =
     (case process_lines (splitlines markdown_text) markdown_start of
        Inl e \<Rightarrow> Inl e
      | Inr st \<Rightarrow> Inr (join [CHR 0x0A] (html_lines (close_list (close_paragraph st)))))"

definition exclusive :: "markdown \<Rightarrow> bool" where
  \<comment> \<open>at most one of the three flags is set\<close>
  "exclusive st =
     (\<not> (in_paragraph st \<and> in_list st) \<and> \<not> (in_paragraph st \<and> in_ordered_list st)
      \<and> \<not> (in_list st \<and> in_ordered_list st))"

section \<open>Notions used by the properties\<close>

definition escape_char :: "char \<Rightarrow> string" where
  \<comment> \<open>one character, escaped once\<close>
  "escape_char c =
     (if c = CHR ''&'' then ''&amp;'' else if c = CHR ''<'' then ''&lt;''
      else if c = CHR ''>'' then ''&gt;'' else [c])"

definition is_list_tag :: "string \<Rightarrow> bool" where
  "is_list_tag fragment = (fragment \<in> {''<ul>'', ''<ol>'', ''</ul>'', ''</ol>''})"

fun tag_scan :: "string list \<Rightarrow> string list \<Rightarrow> string list option" where
  \<comment> \<open>reads the fragments with the lists open so far, innermost last: the lists open at
      the end, or \<open>None\<close> when a closing tag does not close the innermost open list\<close>
  "tag_scan opened [] = Some opened"
| "tag_scan opened (fragment # fragments) =
     (if fragment = ''<ul>'' then tag_scan (opened @ [''ul'']) fragments
      else if fragment = ''<ol>'' then tag_scan (opened @ [''ol'']) fragments
      else if fragment = ''</ul>''
      then (if opened \<noteq> [] \<and> last opened = ''ul'' then tag_scan (butlast opened) fragments
            else None)
      else if fragment = ''</ol>''
      then (if opened \<noteq> [] \<and> last opened = ''ol'' then tag_scan (butlast opened) fragments
            else None)
      else tag_scan opened fragments)"

fun deepest :: "string list \<Rightarrow> nat" where
  \<comment> \<open>the largest number of leading tabs among the paragraphs\<close>
  "deepest [] = 0"
| "deepest (paragraph # paragraphs) = max (indent_level paragraph) (deepest paragraphs)"

definition run_paragraphs :: "string \<Rightarrow> string \<Rightarrow> string list \<Rightarrow> converter \<Rightarrow> converter" where
  "run_paragraphs p_start p_end paragraphs st =
     foldl (\<lambda>st paragraph. process_paragraph p_start p_end paragraph st) st paragraphs"

definition nonblank :: "string list \<Rightarrow> string list" where
  \<comment> \<open>the paragraphs that the converter keeps\<close>
  "nonblank body = filter (\<lambda>paragraph. strip paragraph \<noteq> []) body"

definition tracked :: "converter \<Rightarrow> bool" where
  \<comment> \<open>the stack holds list types only, and reading the fragments gives the stack\<close>
  "tracked st =
     (set (list_stack st) \<subseteq> {''ul'', ''ol''}
      \<and> tag_scan [] (html_fragments st) = Some (list_stack st))"


section \<open>Properties of the Marker Locator and the Segment Engine\<close>

lemma find_prefix_Some:
  "find_prefix sub s = Some k \<Longrightarrow> k + length sub \<le> length s \<and> prefix sub (drop k s)"
proof (induction s arbitrary: k)
  case Nil
  then show ?case by (simp split: if_splits)
next
  case (Cons c cs)
  show ?case
  proof (cases "prefix sub (c # cs)")
    case True
    with Cons.prems show ?thesis by (auto dest: prefix_length_le)
  next
    case False
    with Cons.prems obtain j where "find_prefix sub cs = Some j" and "k = Suc j"
      by auto
    with Cons.IH [of j] show ?thesis by simp
  qed
qed

lemma find_prefix_short: "length s < length sub \<Longrightarrow> find_prefix sub s = None"
  using find_prefix_Some [of sub s] by (cases "find_prefix sub s") auto

lemma py_find_nat:
  "k \<le> length c \<Longrightarrow>
   py_find c m (int k) = (case find_prefix m (drop k c) of None \<Rightarrow> - 1 | Some j \<Rightarrow> int (k + j))"
  by (simp add: py_find_def split: option.splits)

lemma py_find_range:
  assumes "py_find c m st \<noteq> - 1"
  shows "0 \<le> py_find c m st \<and> py_find c m st + int (length m) \<le> int (length c)
         \<and> prefix m (drop (nat (py_find c m st)) c)"
proof -
  define st' where "st' = (if st < 0 then max 0 (int (length c) + st) else st)"
  have st': "0 \<le> st'" by (simp add: st'_def)
  from assms have le: "st' \<le> int (length c)"
    by (auto simp: py_find_def st'_def Let_def split: if_splits)
  from assms obtain k where k: "find_prefix m (drop (nat st') c) = Some k"
    and r: "py_find c m st = st' + int k"
    using le by (auto simp: py_find_def st'_def Let_def split: if_splits option.splits)
  from find_prefix_Some [OF k] st' le r show ?thesis
    by (auto simp: nat_add_distrib add.commute)
qed

lemma find_nth_loop_locate:
  "marker \<noteq> [] \<Longrightarrow> count < n \<Longrightarrow> cursor \<le> length content \<Longrightarrow>
   find_nth_loop content marker n (int cursor) count =
     Some (let offsets = locate_offsets content marker cursor
           in if nat (n - count) \<le> length offsets then int (offsets ! (nat (n - count) - 1))
              else - 1)"
proof (induction content marker cursor arbitrary: count rule: locate_offsets.induct)
  case (1 content marker cursor)
  show ?case
  proof (cases "length content < cursor + length marker")
    case True
    with "1.prems" have "length (drop cursor content) < length marker"
      by simp
    then have "find_prefix marker (drop cursor content) = None"
      by (rule find_prefix_short)
    with "1.prems" have "py_find content marker (int cursor) = - 1"
      by (simp add: py_find_nat)
    moreover from True have "locate_offsets content marker cursor = []"
      by (simp add: locate_offsets.simps)
    ultimately show ?thesis using "1.prems"
      by (subst find_nth_loop.simps) simp
  next
    case False
    note fits = this
    show ?thesis
    proof (cases "prefix marker (drop cursor content)")
      case True
      then have "find_prefix marker (drop cursor content) = Some 0"
        by (cases "drop cursor content") auto
      with "1.prems" have found: "py_find content marker (int cursor) = int cursor"
        by (simp add: py_find_nat)
      from True fits "1.prems" have offs: "locate_offsets content marker cursor =
          cursor # locate_offsets content marker (cursor + length marker)"
        by (subst locate_offsets.simps) simp
      show ?thesis
      proof (cases "count + 1 = n")
        case True
        with found offs show ?thesis
          by (subst find_nth_loop.simps) simp
      next
        case False
        with "1.prems" have lt: "count + 1 < n" by simp
        from fits have "cursor + length marker \<le> length content" by simp
        from "1.IH"(1) [OF _ True "1.prems"(1) lt this] fits "1.prems"
        have "find_nth_loop content marker n (int (cursor + length marker)) (count + 1) =
           Some (let offsets = locate_offsets content marker (cursor + length marker)
                 in if nat (n - (count + 1)) \<le> length offsets
                    then int (offsets ! (nat (n - (count + 1)) - 1)) else - 1)"
          by simp
        moreover have "nat (n - count) = Suc (nat (n - (count + 1)))"
          using lt by simp
        moreover have "0 < nat (n - (count + 1))" using lt by simp
        ultimately show ?thesis using found offs False
          by (subst find_nth_loop.simps) (simp add: Let_def)
      qed
    next
      case False
      from fits "1.prems" have lt: "cursor < length content"
        by (cases marker) auto
      then have dr: "drop cursor content = content ! cursor # drop (Suc cursor) content"
        by (simp add: Cons_nth_drop_Suc)
      from False dr have "\<not> prefix marker (content ! cursor # drop (Suc cursor) content)"
        by metis
      then have "find_prefix marker (content ! cursor # drop (Suc cursor) content) =
          map_option Suc (find_prefix marker (drop (Suc cursor) content))"
        by simp
      with dr have "find_prefix marker (drop cursor content) =
          map_option Suc (find_prefix marker (drop (Suc cursor) content))"
        by metis
      with lt have same: "py_find content marker (int cursor) = py_find content marker (int (Suc cursor))"
        by (simp add: py_find_nat
            del: of_nat_Suc split: option.splits)
      have "find_nth_loop content marker n (int cursor) count =
            find_nth_loop content marker n (int (Suc cursor)) count"
        by (subst (1 2) find_nth_loop.simps) (simp only: same)
      moreover from lt have "Suc cursor \<le> length content" by simp
      note "1.IH"(2) [OF _ False "1.prems"(1,2) this]
      moreover from False fits "1.prems" have "locate_offsets content marker cursor =
          locate_offsets content marker (Suc cursor)"
        by (subst locate_offsets.simps) simp
      ultimately show ?thesis using fits "1.prems"
        by simp
    qed
  qed
qed


lemma find_nth_loop_range:
  assumes "find_nth_loop content substring n start count = Some r"
  shows "r = - 1 \<or> (0 \<le> r \<and> r + int (length substring) \<le> int (length content))"
proof (rule find_nth_loop.raw_induct
    [where P = "\<lambda>c s n st k r. r = - 1 \<or> (0 \<le> r \<and> r + int (length s) \<le> int (length c))",
      OF _ assms])
  fix loop :: "string \<Rightarrow> string \<Rightarrow> int \<Rightarrow> int \<Rightarrow> int \<Rightarrow> int option"
  fix c s :: string and n st k r :: int
  assume IH: "\<And>c s n st k r. loop c s n st k = Some r \<Longrightarrow>
      r = - 1 \<or> (0 \<le> r \<and> r + int (length s) \<le> int (length c))"
  assume body: "(let index = py_find c s st
      in if index = - 1 then Some (- 1)
         else if k + 1 = n then Some index
         else loop c s n (index + int (length s)) (k + 1)) = Some r"
  show "r = - 1 \<or> (0 \<le> r \<and> r + int (length s) \<le> int (length c))"
  proof (cases "py_find c s st = - 1")
    case True
    with body show ?thesis by simp
  next
    case False
    note found = py_find_range [OF False]
    show ?thesis
    proof (cases "k + 1 = n")
      case True
      with body False found show ?thesis by simp
    next
      case stay: False
      with body False
      have "loop c s n (py_find c s st + int (length s)) (k + 1) = Some r"
        by simp
      then show ?thesis by (rule IH)
    qed
  qed
qed

lemma slices_join:
  assumes "0 \<le> a" and "a \<le> b" and "b \<le> int (length c)"
  shows "slice_to c a @ slice c a b @ slice_from c b = c"
proof -
  from assms have ia: "py_index (length c) a = nat a" and ib: "py_index (length c) b = nat b"
    by (auto simp: py_index_def)
  from assms have eq: "nat b - nat a + nat a = nat b"
    by simp
  have "take (nat b - nat a) (drop (nat a) c) @ drop (nat b - nat a) (drop (nat a) c) =
          drop (nat a) c"
    by (rule append_take_drop_id)
  then have "take (nat b - nat a) (drop (nat a) c) @ drop (nat b) c = drop (nat a) c"
    by (simp add: eq)
  then show ?thesis
    by (simp add: slice_to_def slice_def slice_from_def ia ib)
qed

text \<open>
  Claim C5. When the \<open>so\<close>-th occurrence of the start marker and, after it, the
  \<open>eo\<close>-th occurrence of the end marker are both found, \<^verbatim>\<open>get_segment_in_html\<close>
  returns a segment, and \<^verbatim>\<open>replace_segment_in_html\<close> with that segment as the
  replacement text returns the content as it was, and logs nothing.
\<close>

theorem extract_replace_round_trip:
  assumes start: "find_nth_occurrence content s so = Some si" and "si \<noteq> - 1"
    and en: "find_nth_occurrence (slice_from content (si + int (length s))) e eo = Some ei"
    and "ei \<noteq> - 1"
  shows "\<exists>segment. get_segment_in_html content s e so eo lg = Some (Inr segment, lg)
           \<and> replace_segment_in_html content s e segment so eo lg = Some (content, lg)"
proof -
  from start \<open>si \<noteq> - 1\<close> have si: "0 \<le> si" "si + int (length s) \<le> int (length content)"
    using find_nth_loop_range [of content s so 0 0 si] by (auto simp: find_nth_occurrence_def)
  define rest where "rest = slice_from content (si + int (length s))"
  from si have len_rest: "int (length rest) = int (length content) - (si + int (length s))"
    by (simp add: rest_def slice_from_def py_index_def)
  from en \<open>ei \<noteq> - 1\<close> have ei: "0 \<le> ei" "ei + int (length e) \<le> int (length rest)"
    using find_nth_loop_range [of rest e eo 0 0 ei]
    by (auto simp: find_nth_occurrence_def rest_def)
  define stop where "stop = si + int (length s) + ei + int (length e)"
  from si ei len_rest have bounds: "0 \<le> si" "si \<le> stop" "stop \<le> int (length content)"
    by (auto simp: stop_def)
  have get: "get_segment_in_html content s e so eo lg = Some (Inr (slice content si stop), lg)"
    using start en \<open>si \<noteq> - 1\<close> \<open>ei \<noteq> - 1\<close>
    by (simp add: get_segment_in_html_def stop_def Let_def)
  have "replace_segment_in_html content s e (slice content si stop) so eo lg =
          Some (slice_to content si @ slice content si stop @ slice_from content stop, lg)"
    using start en \<open>si \<noteq> - 1\<close> \<open>ei \<noteq> - 1\<close>
    by (simp add: replace_segment_in_html_def stop_def Let_def)
  with slices_join [OF bounds] get show ?thesis
    by simp
qed

theorem extract_replace_round_trip_witness:
  "get_segment_in_html ''a<t>hello</t>b</t>'' ''<t>'' ''</t>'' 1 1 [] = Some (Inr ''<t>hello</t>'', [])
   \<and> replace_segment_in_html ''a<t>hello</t>b</t>'' ''<t>'' ''</t>'' ''<t>hello</t>'' 1 1 [] =
       Some (''a<t>hello</t>b</t>'', [])"
proof -
  have a: "find_nth_occurrence ''a<t>hello</t>b</t>'' ''<t>'' 1 = Some 1"
    by code_simp
  have b: "find_nth_occurrence (slice_from ''a<t>hello</t>b</t>'' (1 + int (length ''<t>''))) ''</t>'' 1 = Some 5"
    by code_simp
  have g: "get_segment_in_html ''a<t>hello</t>b</t>'' ''<t>'' ''</t>'' 1 1 [] = Some (Inr ''<t>hello</t>'', [])"
    by code_simp
  from extract_replace_round_trip [OF a _ b, where lg = "[]"] g show ?thesis
    by simp
qed

text \<open>
  Claim C7. For a non-empty marker and \<open>n \<ge> 1\<close>, \<^verbatim>\<open>find_nth_occurrence\<close> returns,
  and its result is the offset of the n-th match of the left-to-right scan in which the
  cursor moves by the length of the marker after each match (so that matches never
  overlap), or -1 when the scan has fewer than n matches. On \<^verbatim>\<open>"ababab"\<close> the second
  \<^verbatim>\<open>"ab"\<close> is at offset 2 and there is no fourth.
\<close>

theorem locate_nth_match:
  "(marker \<noteq> [] \<and> 1 \<le> n \<longrightarrow>
      find_nth_occurrence content marker n = Some (locate_spec content marker n))
   \<and> find_nth_occurrence ''ababab'' ''ab'' 2 = Some 2
   \<and> find_nth_occurrence ''ababab'' ''ab'' 4 = Some (- 1)"
proof (intro conjI impI)
  assume "marker \<noteq> [] \<and> 1 \<le> n"
  then have "marker \<noteq> []" and "0 < n" by auto
  from find_nth_loop_locate [OF this, of 0 content]
  show "find_nth_occurrence content marker n = Some (locate_spec content marker n)"
    by (simp add: find_nth_occurrence_def locate_spec_def Let_def)
next
  show "find_nth_occurrence ''ababab'' ''ab'' 2 = Some 2"
    by code_simp
next
  show "find_nth_occurrence ''ababab'' ''ab'' 4 = Some (- 1)"
    by code_simp
qed

theorem locate_nth_match_witness:
  "''ab'' \<noteq> [] \<and> (1::int) \<le> 3 \<and> find_nth_occurrence ''abcabab'' ''ab'' 3 = Some (locate_spec ''abcabab'' ''ab'' 3)
   \<and> locate_spec ''abcabab'' ''ab'' 3 = 5"
proof -
  have "locate_spec ''abcabab'' ''ab'' 3 = 5"
    by code_simp
  with locate_nth_match [of "''ab''" 3 "''abcabab''"] show ?thesis
    by simp
qed

text \<open>
  Claim C1. The docstring of \<^verbatim>\<open>replace_segment_in_html\<close> says that it terminates when
  an occurrence is not found, and \<^verbatim>\<open>get_segment_in_html\<close> does so through
  \<^verbatim>\<open>log_and_terminate\<close>. \<^verbatim>\<open>replace_segment_in_html\<close> calls \<^verbatim>\<open>log_message\<close>
  instead and goes on with the index -1: on the content \<^verbatim>\<open>"hello"\<close>, which holds
  neither marker, it logs both errors and returns the patched text \<^verbatim>\<open>"hellRhello"\<close>.
\<close>

theorem replace_segment_missing_start:
  "replace_segment_in_html ''hello'' ''X'' ''Y'' ''R'' 1 1 [] =
     Some (''hellRhello'',
       [''Error: '' @ start_not_found ''X'' 1, ''Error: '' @ end_not_found ''Y'' 1 ''X''])
   \<and> get_segment_in_html ''hello'' ''X'' ''Y'' 1 1 [] =
     Some (Inl (SystemExit 1), [''ERROR: '' @ start_not_found ''X'' 1])"
  by code_simp

section \<open>Properties of the Bulk Marker Replacer\<close>

lemma ab_start: "py_find ''ab'' ''a'' 0 = 0"
  by code_simp

lemma ab_end: "py_find ''ab'' ''b'' (0 + int (length ''a'')) = 1"
  by code_simp

lemma ab_rebuilt:
  "slice_to ''ab'' 0 @ (''a'' @ slice ''ab'' (0 + int (length ''a'')) 1 @ ''b'')
     @ slice_from ''ab'' (1 + int (length ''b'')) = ''ab''"
  by code_simp

lemma replace_pair_loop_ab: "replace_pair_loop ''a'' ''b'' ''a'' ''b'' ''ab'' lg = None"
proof (rule ccontr)
  assume "replace_pair_loop ''a'' ''b'' ''a'' ''b'' ''ab'' lg \<noteq> None"
  then obtain y where y: "replace_pair_loop ''a'' ''b'' ''a'' ''b'' ''ab'' lg = Some y"
    by auto
  have "\<not> (''a'' = ''a'' \<and> ''b'' = ''b'' \<and> ''a'' = ''a'' \<and> ''b'' = ''b'' \<and> ''ab'' = ''ab'')"
  proof (rule replace_pair_loop.raw_induct
      [where P = "\<lambda>sm em st et html lg y.
          \<not> (sm = ''a'' \<and> em = ''b'' \<and> st = ''a'' \<and> et = ''b'' \<and> html = ''ab'')", OF _ y])
    fix loop :: "string \<Rightarrow> string \<Rightarrow> string \<Rightarrow> string \<Rightarrow> string \<Rightarrow> log \<Rightarrow> (string \<times> log) option"
    fix sm em st et html :: string and lg :: log and y :: "string \<times> log"
    assume IH: "\<And>sm em st et html lg y. loop sm em st et html lg = Some y \<Longrightarrow>
        \<not> (sm = ''a'' \<and> em = ''b'' \<and> st = ''a'' \<and> et = ''b'' \<and> html = ''ab'')"
    assume body: "(let start_idx = py_find html sm 0
      in if start_idx = - 1 then Some (html, lg)
         else let end_idx = py_find html em (start_idx + int (length sm))
              in if end_idx = - 1 then Some (html, log_message (unmatched_start sm em) lg)
                 else loop sm em st et
                        (slice_to html start_idx
                           @ (st @ slice html (start_idx + int (length sm)) end_idx @ et)
                           @ slice_from html (end_idx + int (length em)))
                        lg) = Some y"
    show "\<not> (sm = ''a'' \<and> em = ''b'' \<and> st = ''a'' \<and> et = ''b'' \<and> html = ''ab'')"
    proof
      assume eq: "sm = ''a'' \<and> em = ''b'' \<and> st = ''a'' \<and> et = ''b'' \<and> html = ''ab''"
      with body have "loop ''a'' ''b'' ''a'' ''b'' ''ab'' lg = Some y"
        by (simp only: ab_start ab_end ab_rebuilt Let_def) simp
      from IH [OF this] show False by simp
    qed
  qed
  then show False by simp
qed

text \<open>
  Claim C9. With the pair \<^verbatim>\<open>("a", "b")\<close> replaced by the tags \<^verbatim>\<open>("a", "b")\<close>, every
  pass of the loop over the content \<^verbatim>\<open>"ab"\<close> rebuilds the same content and finds the
  start marker again: \<^verbatim>\<open>replace_all_markers_in_html\<close> does not return.
\<close>

theorem replace_all_diverges:
  "replace_all_markers_in_html ''ab'' [((''a'', ''b''), (''a'', ''b''))] lg = None"
  by (simp add: replace_pair_loop_ab)

text \<open>
  Claim C6. When the leftmost start marker of a pair has no end marker after it, the loop
  of that pair returns the content as it is at that moment, with the replacements made
  before, and one more log line; nothing is raised, and
  \<^verbatim>\<open>replace_all_markers_in_html\<close> goes on with the remaining pairs from that content.
  On \<^verbatim>\<open>"X<a>keep"\<close> the content comes back unchanged with the warning.
\<close>

theorem bulk_unmatched_start_skipped:
  "(py_find html start_marker 0 \<noteq> - 1
      \<and> py_find html end_marker (py_find html start_marker 0 + int (length start_marker)) = - 1
    \<longrightarrow> replace_pair_loop start_marker end_marker start_tag end_tag html lg =
          Some (html, log_message (unmatched_start start_marker end_marker) lg)
        \<and> replace_all_markers_in_html html
            (((start_marker, end_marker), (start_tag, end_tag)) # markers) lg =
          replace_all_markers_in_html html markers
            (log_message (unmatched_start start_marker end_marker) lg))
   \<and> replace_all_markers_in_html ''X<a>keep'' [((''<a>'', ''</a>''), (''<b>'', ''</b>''))] [] =
       Some (''X<a>keep'', [unmatched_start ''<a>'' ''</a>''])
   \<and> replace_all_markers_in_html ''<a>k</a><a>z[c]''
         [((''<a>'', ''</a>''), (''<b>'', ''</b>'')), ((''['', '']''), (''('', '')''))] [] =
       Some (''<b>k</b><a>z(c)'', [unmatched_start ''<a>'' ''</a>''])"
proof (intro conjI impI)
  assume h: "py_find html start_marker 0 \<noteq> - 1
      \<and> py_find html end_marker (py_find html start_marker 0 + int (length start_marker)) = - 1"
  then show loop: "replace_pair_loop start_marker end_marker start_tag end_tag html lg =
          Some (html, log_message (unmatched_start start_marker end_marker) lg)"
    by (subst replace_pair_loop.simps) (simp add: Let_def)
  then show "replace_all_markers_in_html html
            (((start_marker, end_marker), (start_tag, end_tag)) # markers) lg =
          replace_all_markers_in_html html markers
            (log_message (unmatched_start start_marker end_marker) lg)"
    by simp
next
  show "replace_all_markers_in_html ''X<a>keep'' [((''<a>'', ''</a>''), (''<b>'', ''</b>''))] [] =
       Some (''X<a>keep'', [unmatched_start ''<a>'' ''</a>''])"
    by code_simp
next
  show "replace_all_markers_in_html ''<a>k</a><a>z[c]''
         [((''<a>'', ''</a>''), (''<b>'', ''</b>'')), ((''['', '']''), (''('', '')''))] [] =
       Some (''<b>k</b><a>z(c)'', [unmatched_start ''<a>'' ''</a>''])"
    by code_simp
qed

theorem bulk_unmatched_start_skipped_witness:
  "py_find ''X<a>keep'' ''<a>'' 0 = 1
   \<and> py_find ''X<a>keep'' ''</a>'' (1 + int (length ''<a>'')) = - 1
   \<and> replace_pair_loop ''<a>'' ''</a>'' ''<b>'' ''</b>'' ''X<a>keep'' [] =
        Some (''X<a>keep'', log_message (unmatched_start ''<a>'' ''</a>'') [])
   \<and> replace_all_markers_in_html ''X<a>keep''
        [((''<a>'', ''</a>''), (''<b>'', ''</b>'')), ((''X'', ''k''), (''Y'', ''K''))] [] =
      replace_all_markers_in_html ''X<a>keep'' [((''X'', ''k''), (''Y'', ''K''))]
        (log_message (unmatched_start ''<a>'' ''</a>'') [])"
proof -
  have a: "py_find ''X<a>keep'' ''<a>'' 0 = 1"
    by code_simp
  have b: "py_find ''X<a>keep'' ''</a>'' (1 + int (length ''<a>'')) = - 1"
    by code_simp
  from bulk_unmatched_start_skipped [of "''X<a>keep''" "''<a>''" "''</a>''" "''<b>''" "''</b>''"
      "[]" "[((''X'', ''k''), (''Y'', ''K''))]"] a b
  show ?thesis by simp
qed

section \<open>Properties of the converters\<close>

text \<open>
  Claim C2. The comment above the loop says that numbered lists are found by ``a regex for
  leading digits, e.g., "1. " or "1) "'', but the pattern is the raw string
  \<^verbatim>\<open>r"^[0-9]+[\.)]\\s?"\<close>, in which \<^verbatim>\<open>\\\<close> is an escaped backslash: after the digits
  and the \<^verbatim>\<open>.\<close> or \<^verbatim>\<open>)\<close> it asks for a backslash character. The paragraph
  \<^verbatim>\<open>"1. B"\<close> therefore does not match and is converted as a plain paragraph: the
  unordered list is closed and no ordered list is opened.
\<close>

theorem numbered_item_is_plain:
  "number_match ''1. B'' = None
   \<and> docx_fragments [''--'' @ [CHR 0x09] @ ''A'', ''1. B''] [] [] ''<p>'' ''</p>'' =
       [''<ul>'', ''<li>A</li>'', ''</ul>'', ''<p>1. B</p>'']
   \<and> number_match (''1.'' @ [CHR 0x5C] @ ''B'') = Some 3"
  by code_simp

text \<open>
  Claim C3. A line that is not a bullet closes an open unordered list before the
  numbered-list test, but a bullet line leaves by \<^verbatim>\<open>continue\<close> before the code that
  closes an open ordered list. After the two lines \<^verbatim>\<open>"1. a"\<close> and \<^verbatim>\<open>"- b"\<close> both
  \<^verbatim>\<open>in_list\<close> and \<^verbatim>\<open>in_ordered_list\<close> are set; in the other order the flags stay
  exclusive.
\<close>

theorem bullet_after_number_both_open:
  "map_sum id (\<lambda>st. (in_list st, in_ordered_list st, exclusive st))
     (process_lines (splitlines (''1. a'' @ [CHR 0x0A] @ ''- b'')) markdown_start) =
   Inr (True, True, False)
   \<and> map_sum id exclusive
     (process_lines (splitlines (''- a'' @ [CHR 0x0A] @ ''1. b'')) markdown_start) = Inr True"
  by code_simp

text \<open>
  Claim C4, as stated, fails for the Markdown Converter, which has no escaping at all:
  the \<^verbatim>\<open>&\<close> of the line \<^verbatim>\<open>"a&b"\<close> is emitted as it is, and the output holds no
  \<^verbatim>\<open>&amp;\<close>.
\<close>

theorem markdown_does_not_escape:
  "markdown_to_html ''a&b'' = Inr (''<p>'' @ [CHR 0x0A] @ ''a&b'' @ [CHR 0x0A] @ ''</p>'')
   \<and> find_prefix ''&amp;'' (''<p>'' @ [CHR 0x0A] @ ''a&b'' @ [CHR 0x0A] @ ''</p>'') = None
   \<and> html_escape ''a&b'' = ''a&amp;b''"
  by code_simp


lemma py_replace_char:
  "py_replace [a] new s = concat (map (\<lambda>c. if c = a then new else [c]) s)"
  by (induction s) auto

lemma concat_map_concat_map:
  "concat (map f (concat (map g s))) = concat (map (\<lambda>c. concat (map f (g c))) s)"
  by (induction s) auto

lemma html_escape_chars: "html_escape s = concat (map escape_char s)"
proof -
  have "concat (map (\<lambda>c. if c = CHR ''>'' then ''&gt;'' else [c])
          (concat (map (\<lambda>c. if c = CHR ''<'' then ''&lt;'' else [c])
             (if c = CHR ''&'' then ''&amp;'' else [c])))) = escape_char c" for c
    by (simp add: escape_char_def)
  then show ?thesis
    by (simp add: html_escape_def py_replace_char concat_map_concat_map)
qed

lemma last_fragment:
  "last (html_fragments (process_paragraph p_start p_end paragraph st)) =
     (let line_stripped = drop (indent_level paragraph) paragraph
      in if bullet_match line_stripped \<or> number_match line_stripped \<noteq> None
         then ''<li>'' @ html_escape (item_content line_stripped) @ ''</li>''
         else p_start @ html_escape paragraph @ p_end)"
  by (simp add: process_paragraph_def Let_def)

lemma strip_idem: "strip (strip s) = strip s"
proof -
  define u where "u = dropWhile is_space s"
  define t where "t = rev (dropWhile is_space (rev u))"
  have t: "strip s = t"
    by (simp add: strip_def t_def u_def)
  have "u = rev (takeWhile is_space (rev u) @ dropWhile is_space (rev u))"
    by (simp only: takeWhile_dropWhile_id rev_rev_ident)
  then have u: "u = t @ rev (takeWhile is_space (rev u))"
    by (simp only: rev_append t_def)
  have front: "dropWhile is_space t = t"
  proof (cases t)
    case Nil
    then show ?thesis by simp
  next
    case (Cons c cs)
    with u have "u = c # (cs @ rev (takeWhile is_space (rev u)))"
      by (metis append_Cons)
    then have "u \<noteq> []" and "hd u = c"
      by (metis list.distinct(1), metis list.sel(1))
    moreover have "u \<noteq> [] \<Longrightarrow> \<not> is_space (hd u)"
      unfolding u_def by (rule hd_dropWhile)
    ultimately show ?thesis using Cons by simp
  qed
  have rear: "dropWhile is_space (rev t) = rev t"
    by (simp add: t_def)
  have "strip t = rev (dropWhile is_space (rev (dropWhile is_space t)))"
    by (simp only: strip_def)
  also have "\<dots> = t"
    by (simp only: front rear rev_rev_ident)
  finally show ?thesis
    by (simp only: t)
qed

lemma split_char_absent: "sep \<notin> set s \<Longrightarrow> split_char sep s = [s]"
  by (induction s) auto

lemma bold_plain: "CHR ''*'' \<notin> set s \<Longrightarrow> bold s = s"
  by (induction s) auto

lemma plain_line_verbatim:
  assumes "strip raw \<noteq> []" and "\<not> prefix ''#'' (strip raw)" and "\<not> prefix ''- '' (strip raw)"
    and "\<not> ordered_match (strip raw)" and "CHR ''*'' \<notin> set (strip raw)"
    and "CHR 0x0A \<notin> set (strip raw)"
  shows "\<exists>pre. map_sum id html_lines (process_line raw st) = Inr (pre @ [strip raw, ''</p>''])"
proof -
  define line where "line = strip raw"
  define st1 where "st1 = (if in_list st then (append_line ''</ul>'' st)\<lparr>in_list := False\<rparr>
                       else st)"
  define st2 where "st2 = (if in_ordered_list st1
                               then (append_line ''</ol>'' st1)\<lparr>in_ordered_list := False\<rparr>
                               else st1)"
  define st3 where "st3 = (if \<not> in_paragraph st2
                               then (append_line ''<p>'' st2)\<lparr>in_paragraph := True\<rparr>
                               else st2)"
  have open3: "in_paragraph st3"
    by (simp add: st3_def)
  from assms have "process_line raw st =
      Inr (sublines_loop (last (split_char (CHR 0x0A) line)) (split_char (CHR 0x0A) line) st3)"
    by (auto simp: process_line_def Let_def line_def st1_def st2_def st3_def)
  also from assms have "split_char (CHR 0x0A) line = [line]"
    unfolding line_def by (intro split_char_absent)
  finally have "process_line raw st = Inr (sublines_loop line [line] st3)"
    by simp
  moreover from assms have "sublines_loop line [line] st3 = close_paragraph (append_line line st3)"
    by (simp add: line_def strip_idem bold_plain Let_def)
  moreover from open3 have "html_lines (close_paragraph (append_line line st3)) =
      html_lines st3 @ [line, ''</p>'']"
    by (simp add: close_paragraph_def append_line_def)
  ultimately show ?thesis
    by (auto simp: line_def)
qed

text \<open>
  Claim C4, amended. In the Nested List Converter the three chained \<^verbatim>\<open>replace\<close> calls
  escape every character of the text exactly once (\<^verbatim>\<open>&\<close> first, so that the
  \<^verbatim>\<open>&\<close> of an entity just written is not escaped again), and the fragment emitted
  for a paragraph is the escaped item text between \<^verbatim>\<open><li>\<close> and \<^verbatim>\<open></li>\<close>, or the
  escaped paragraph between the paragraph wrappers. The Markdown Converter does not
  escape: a plain line without bold markers is emitted as it is written, followed by
  the end of its paragraph.
\<close>

theorem converters_escaping:
  "html_escape s = concat (map escape_char s)
   \<and> last (html_fragments (process_paragraph p_start p_end paragraph st)) =
       (let line_stripped = drop (indent_level paragraph) paragraph
        in if bullet_match line_stripped \<or> number_match line_stripped \<noteq> None
           then ''<li>'' @ concat (map escape_char (item_content line_stripped)) @ ''</li>''
           else p_start @ concat (map escape_char paragraph) @ p_end)
   \<and> (strip raw \<noteq> [] \<and> \<not> prefix ''#'' (strip raw) \<and> \<not> prefix ''- '' (strip raw)
        \<and> \<not> ordered_match (strip raw) \<and> CHR ''*'' \<notin> set (strip raw)
        \<and> CHR 0x0A \<notin> set (strip raw)
      \<longrightarrow> (\<exists>pre. map_sum id html_lines (process_line raw md) =
                  Inr (pre @ [strip raw, ''</p>''])))"
  using plain_line_verbatim [of raw md]
  by (simp add: last_fragment html_escape_chars Let_def)

theorem converters_escaping_witness:
  "html_escape ''a&b<c>'' = ''a&amp;b&lt;c&gt;''
   \<and> last (html_fragments (process_paragraph ''<p>'' ''</p>'' (''--'' @ [CHR 0x09] @ ''R&D'')
        \<lparr>html_fragments = [], list_stack = []\<rparr>)) = ''<li>R&amp;D</li>''
   \<and> last (html_fragments (process_paragraph ''<p>'' ''</p>'' ''x<y''
        \<lparr>html_fragments = [], list_stack = []\<rparr>)) = ''<p>x&lt;y</p>''
   \<and> (\<exists>pre. map_sum id html_lines (process_line ''a&b'' markdown_start) =
         Inr (pre @ [''a&b'', ''</p>'']))"
proof -
  have a: "concat (map escape_char ''a&b<c>'') = ''a&amp;b&lt;c&gt;''"
    by (simp add: escape_char_def)
  have b: "(let line_stripped = drop (indent_level (''--'' @ [CHR 0x09] @ ''R&D''))
                  (''--'' @ [CHR 0x09] @ ''R&D'')
        in if bullet_match line_stripped \<or> number_match line_stripped \<noteq> None
           then ''<li>'' @ concat (map escape_char (item_content line_stripped)) @ ''</li>''
           else ''<p>'' @ concat (map escape_char (''--'' @ [CHR 0x09] @ ''R&D'')) @ ''</p>'')
        = ''<li>R&amp;D</li>''"
    by code_simp
  have c: "(let line_stripped = drop (indent_level ''x<y'') ''x<y''
        in if bullet_match line_stripped \<or> number_match line_stripped \<noteq> None
           then ''<li>'' @ concat (map escape_char (item_content line_stripped)) @ ''</li>''
           else ''<p>'' @ concat (map escape_char ''x<y'') @ ''</p>'') = ''<p>x&lt;y</p>''"
    by code_simp
  have d: "strip ''a&b'' = ''a&b''"
    by code_simp
  have e: "\<not> ordered_match ''a&b''"
    by code_simp
  note item = converters_escaping [of "''a&b<c>''" "''<p>''" "''</p>''"
      "''--'' @ [CHR 0x09] @ ''R&D''" "\<lparr>html_fragments = [], list_stack = []\<rparr>"
      "''a&b''" markdown_start]
  note plain = converters_escaping [of "''a&b<c>''" "''<p>''" "''</p>''"
      "''x<y''" "\<lparr>html_fragments = [], list_stack = []\<rparr>" "''a&b''" markdown_start]
  from item have "html_escape ''a&b<c>'' = ''a&amp;b&lt;c&gt;''"
    by (simp only: a)
  moreover from item
  have "last (html_fragments (process_paragraph ''<p>'' ''</p>'' (''--'' @ [CHR 0x09] @ ''R&D'')
        \<lparr>html_fragments = [], list_stack = []\<rparr>)) = ''<li>R&amp;D</li>''"
    by (simp only: b)
  moreover from plain
  have "last (html_fragments (process_paragraph ''<p>'' ''</p>'' ''x<y''
        \<lparr>html_fragments = [], list_stack = []\<rparr>)) = ''<p>x&lt;y</p>''"
    by (simp only: c)
  moreover from item e
  have "\<exists>pre. map_sum id html_lines (process_line ''a&b'' markdown_start) =
         Inr (pre @ [''a&b'', ''</p>''])"
    by (simp add: d)
  ultimately show ?thesis
    by (intro conjI)
qed

section \<open>The stack of open lists\<close>

lemma tag_scan_append:
  "tag_scan opened (xs @ ys) =
     (case tag_scan opened xs of None \<Rightarrow> None | Some opened' \<Rightarrow> tag_scan opened' ys)"
  by (induction xs arbitrary: opened) auto

lemma tracked_append:
  "tracked st \<Longrightarrow> \<not> is_list_tag fragment \<Longrightarrow>
   tracked (st\<lparr>html_fragments := html_fragments st @ [fragment]\<rparr>)"
  by (simp add: tracked_def tag_scan_append is_list_tag_def)

lemma tracked_pop:
  assumes "tracked st" and "list_stack st \<noteq> []"
  shows "tracked (pop_and_close st)"
proof -
  from assms have "last (list_stack st) \<in> {''ul'', ''ol''}"
    unfolding tracked_def using last_in_set by blast
  moreover from assms have "set (butlast (list_stack st)) \<subseteq> {''ul'', ''ol''}"
    unfolding tracked_def using in_set_butlastD by fastforce
  ultimately show ?thesis using assms
    by (auto simp: tracked_def pop_and_close_def tag_scan_append)
qed

lemma tracked_open:
  "tracked st \<Longrightarrow> list_type \<in> {''ul'', ''ol''} \<Longrightarrow> tracked (open_list list_type st)"
  by (auto simp: tracked_def open_list_def tag_scan_append)

lemma close_all_lists_props:
  "list_stack (close_all_lists st) = [] \<and> (tracked st \<longrightarrow> tracked (close_all_lists st))"
proof (induction st rule: close_all_lists.induct)
  case (1 st)
  show ?case
  proof (cases "list_stack st = []")
    case True
    then show ?thesis by (simp add: close_all_lists.simps)
  next
    case False
    with "1.IH" tracked_pop [of st] show ?thesis
      by (subst (1 2) close_all_lists.simps) simp
  qed
qed

lemma close_to_level_props:
  "length (list_stack (close_to_level level st)) = min level (length (list_stack st))
   \<and> (tracked st \<longrightarrow> tracked (close_to_level level st))"
proof (induction level st rule: close_to_level.induct)
  case (1 level st)
  show ?case
  proof (cases "level < length (list_stack st)")
    case True
    then have "list_stack st \<noteq> []" by auto
    moreover have "length (list_stack (pop_and_close st)) = length (list_stack st) - 1"
      by (simp add: pop_and_close_def)
    ultimately show ?thesis using "1.IH" [OF True] True tracked_pop [of st]
      by (subst (1 2) close_to_level.simps) auto
  next
    case False
    then show ?thesis by (simp add: close_to_level.simps)
  qed
qed

lemma open_to_depth_props:
  "length (list_stack (open_to_depth list_type depth st)) = max depth (length (list_stack st))
   \<and> (tracked st \<longrightarrow> list_type \<in> {''ul'', ''ol''} \<longrightarrow>
        tracked (open_to_depth list_type depth st))"
proof (induction list_type depth st rule: open_to_depth.induct)
  case (1 list_type depth st)
  show ?case
  proof (cases "length (list_stack st) < depth")
    case True
    moreover have "length (list_stack (open_list list_type st)) = Suc (length (list_stack st))"
      by (simp add: open_list_def)
    ultimately show ?thesis using "1.IH" [OF True] tracked_open [of st list_type]
      by (subst (1 2) open_to_depth.simps) auto
  next
    case False
    then show ?thesis by (simp add: open_to_depth.simps)
  qed
qed

lemma li_not_list_tag: "\<not> is_list_tag (''<li>'' @ text @ ''</li>'')"
  by (simp add: is_list_tag_def)

lemma adjust_stack_depth:
  assumes "0 < depth"
  shows "length (list_stack (adjust_stack list_type depth st)) = depth"
proof -
  consider (deeper) "depth < length (list_stack st)"
    | (shallower) "length (list_stack st) < depth"
    | (switch) "length (list_stack st) = depth" "last (list_stack st) \<noteq> list_type"
    | (same) "length (list_stack st) = depth" "last (list_stack st) = list_type"
    by linarith
  then show ?thesis
  proof cases
    case deeper
    with close_to_level_props [of depth st] show ?thesis
      by (simp add: adjust_stack_def)
  next
    case shallower
    with open_to_depth_props [of list_type depth st] show ?thesis
      by (simp add: adjust_stack_def)
  next
    case switch
    with close_to_level_props [of "depth - 1" st] assms show ?thesis
      by (simp add: adjust_stack_def open_list_def)
  next
    case same
    then show ?thesis
      by (simp add: adjust_stack_def)
  qed
qed

lemma adjust_stack_tracked:
  assumes "tracked st" and "list_type \<in> {''ul'', ''ol''}"
  shows "tracked (adjust_stack list_type depth st)"
proof -
  have closed: "tracked (close_to_level k st)" for k
    using close_to_level_props [of k st] assms(1) by simp
  have "tracked (open_to_depth list_type depth st)"
    using open_to_depth_props [of list_type depth st] assms by auto
  moreover have "tracked (open_list list_type (close_to_level (depth - 1) st))"
    using closed assms(2) by (rule tracked_open)
  ultimately show ?thesis
    using closed [of depth] assms(1) by (auto simp: adjust_stack_def)
qed

lemma process_paragraph_item:
  assumes "bullet_match (drop (indent_level paragraph) paragraph)
      \<or> number_match (drop (indent_level paragraph) paragraph) \<noteq> None"
  shows "\<exists>list_type \<in> {''ul'', ''ol''}. process_paragraph p_start p_end paragraph st =
      (adjust_stack list_type (indent_level paragraph + 1) st)
        \<lparr>html_fragments :=
           html_fragments (adjust_stack list_type (indent_level paragraph + 1) st)
             @ [''<li>'' @ html_escape (item_content (drop (indent_level paragraph) paragraph))
                  @ ''</li>'']\<rparr>"
  using assms by (auto simp: process_paragraph_def Let_def)

lemma process_paragraph_plain:
  assumes "\<not> (bullet_match (drop (indent_level paragraph) paragraph)
      \<or> number_match (drop (indent_level paragraph) paragraph) \<noteq> None)"
  shows "process_paragraph p_start p_end paragraph st =
      (close_all_lists st)\<lparr>html_fragments := html_fragments (close_all_lists st)
         @ [p_start @ html_escape paragraph @ p_end]\<rparr>"
  using assms by (auto simp: process_paragraph_def Let_def)

lemma process_paragraph_depth:
  "length (list_stack (process_paragraph p_start p_end paragraph st)) \<le>
     indent_level paragraph + 1"
proof (cases "bullet_match (drop (indent_level paragraph) paragraph)
      \<or> number_match (drop (indent_level paragraph) paragraph) \<noteq> None")
  case True
  from process_paragraph_item [OF True, of p_start p_end st] adjust_stack_depth
  show ?thesis by auto
next
  case False
  from process_paragraph_plain [OF False, of p_start p_end st] close_all_lists_props [of st]
  show ?thesis by simp
qed

lemma process_paragraph_tracked:
  assumes "tracked st" and "\<not> is_list_tag (p_start @ html_escape paragraph @ p_end)"
  shows "tracked (process_paragraph p_start p_end paragraph st)"
proof (cases "bullet_match (drop (indent_level paragraph) paragraph)
      \<or> number_match (drop (indent_level paragraph) paragraph) \<noteq> None")
  case True
  from process_paragraph_item [OF True, of p_start p_end st]
  obtain list_type where t: "list_type \<in> {''ul'', ''ol''}"
    and eq: "process_paragraph p_start p_end paragraph st =
      (adjust_stack list_type (indent_level paragraph + 1) st)
        \<lparr>html_fragments :=
           html_fragments (adjust_stack list_type (indent_level paragraph + 1) st)
             @ [''<li>'' @ html_escape (item_content (drop (indent_level paragraph) paragraph))
                  @ ''</li>'']\<rparr>"
    by blast
  from adjust_stack_tracked [OF assms(1) t] li_not_list_tag show ?thesis
    unfolding eq by (rule tracked_append)
next
  case False
  have "tracked (close_all_lists st)"
    using close_all_lists_props [of st] assms(1) by simp
  then show ?thesis
    unfolding process_paragraph_plain [OF False] using assms(2) by (rule tracked_append)
qed

lemma deepest_append: "deepest (xs @ ys) = max (deepest xs) (deepest ys)"
  by (induction xs) auto

lemma run_paragraphs_snoc:
  "run_paragraphs p_start p_end (paragraphs @ [paragraph]) st =
     process_paragraph p_start p_end paragraph (run_paragraphs p_start p_end paragraphs st)"
  by (simp add: run_paragraphs_def)

lemma run_paragraphs_depth:
  "list_stack st = [] \<Longrightarrow>
   length (list_stack (run_paragraphs p_start p_end paragraphs st)) \<le> deepest paragraphs + 1"
proof (induction paragraphs rule: rev_induct)
  case Nil
  then show ?case by (simp add: run_paragraphs_def)
next
  case (snoc p ps)
  have "length (list_stack (run_paragraphs p_start p_end (ps @ [p]) st)) \<le>
      indent_level p + 1"
    by (simp only: run_paragraphs_snoc process_paragraph_depth)
  then show ?case by (simp add: deepest_append)
qed

lemma run_paragraphs_tracked:
  "tracked st \<Longrightarrow>
   \<forall>paragraph \<in> set paragraphs. \<not> is_list_tag (p_start @ html_escape paragraph @ p_end) \<Longrightarrow>
   tracked (run_paragraphs p_start p_end paragraphs st)"
proof (induction paragraphs rule: rev_induct)
  case Nil
  then show ?case by (simp add: run_paragraphs_def)
next
  case (snoc p ps)
  then show ?case
    by (simp add: run_paragraphs_snoc process_paragraph_tracked)
qed

lemma convert_paragraphs_run:
  "convert_paragraphs body entire_start p_start p_end =
     run_paragraphs p_start p_end (nonblank body)
       \<lparr>html_fragments = (if entire_start \<noteq> [] then [entire_start] else []), list_stack = []\<rparr>"
  by (simp add: convert_paragraphs_def run_paragraphs_def nonblank_def)

lemma start_tracked:
  "\<not> is_list_tag entire_start \<Longrightarrow>
   tracked \<lparr>html_fragments = (if entire_start \<noteq> [] then [entire_start] else []),
            list_stack = []\<rparr>"
  by (simp add: tracked_def is_list_tag_def)

text \<open>
  Claim C8, amended. After any prefix \<open>seen\<close> of the paragraphs the stack of open lists is
  at most one deeper than the largest number of leading tabs seen (an item with
  \<open>indent_level\<close> tabs is at depth \<open>indent_level + 1\<close>); after the final
  \<^verbatim>\<open>close_all_lists\<close> the stack is empty; and, when the wrappers given by the caller do
  not themselves produce a list tag, reading the emitted fragments in order every
  \<^verbatim>\<open><ul>\<close> and \<^verbatim>\<open><ol>\<close> is closed by its own closing tag, innermost first, and
  none is left open.
\<close>

theorem list_stack_discipline:
  "length (list_stack (convert_paragraphs seen entire_start p_start p_end)) \<le>
     deepest (nonblank seen) + 1
   \<and> convert_paragraphs (seen @ rest) entire_start p_start p_end =
       run_paragraphs p_start p_end (nonblank rest)
         (convert_paragraphs seen entire_start p_start p_end)
   \<and> list_stack (close_all_lists (convert_paragraphs body entire_start p_start p_end)) = []
   \<and> (\<not> is_list_tag entire_start \<and> \<not> is_list_tag entire_end
        \<and> (\<forall>paragraph \<in> set body. \<not> is_list_tag (p_start @ html_escape paragraph @ p_end))
      \<longrightarrow> tag_scan [] (docx_fragments body entire_start entire_end p_start p_end) = Some [])"
proof (intro conjI impI)
  show "length (list_stack (convert_paragraphs seen entire_start p_start p_end)) \<le>
     deepest (nonblank seen) + 1"
    by (simp only: convert_paragraphs_run) (rule run_paragraphs_depth, simp)
next
  show "convert_paragraphs (seen @ rest) entire_start p_start p_end =
       run_paragraphs p_start p_end (nonblank rest)
         (convert_paragraphs seen entire_start p_start p_end)"
    by (simp add: convert_paragraphs_run run_paragraphs_def nonblank_def)
next
  show "list_stack (close_all_lists (convert_paragraphs body entire_start p_start p_end)) = []"
    using close_all_lists_props by blast
next
  assume h: "\<not> is_list_tag entire_start \<and> \<not> is_list_tag entire_end
        \<and> (\<forall>paragraph \<in> set body. \<not> is_list_tag (p_start @ html_escape paragraph @ p_end))"
  then have "\<forall>paragraph \<in> set (nonblank body).
      \<not> is_list_tag (p_start @ html_escape paragraph @ p_end)"
    by (simp add: nonblank_def)
  with h have "tracked (convert_paragraphs body entire_start p_start p_end)"
    by (simp only: convert_paragraphs_run) (rule run_paragraphs_tracked, rule start_tracked, simp_all)
  with close_all_lists_props [of "convert_paragraphs body entire_start p_start p_end"]
  have "tag_scan []
      (html_fragments (close_all_lists (convert_paragraphs body entire_start p_start p_end))) =
      Some []"
    by (simp add: tracked_def)
  with h show "tag_scan [] (docx_fragments body entire_start entire_end p_start p_end) = Some []"
    by (simp add: docx_fragments_def tag_scan_append is_list_tag_def)
qed


theorem list_stack_discipline_witness:
  "tag_scan []
     (docx_fragments [[CHR 0x09, CHR 0x09] @ ''--'' @ [CHR 0x09] @ ''A'', ''D''] [] []
        ''<p>'' ''</p>'') = Some []
   \<and> docx_fragments [[CHR 0x09, CHR 0x09] @ ''--'' @ [CHR 0x09] @ ''A'', ''D''] [] []
        ''<p>'' ''</p>'' =
       [''<ul>'', ''<ul>'', ''<ul>'', ''<li>A</li>'', ''</ul>'', ''</ul>'', ''</ul>'', ''<p>D</p>'']
   \<and> length (list_stack (convert_paragraphs [[CHR 0x09, CHR 0x09] @ ''--'' @ [CHR 0x09] @ ''A'']
        [] ''<p>'' ''</p>'')) \<le> deepest (nonblank [[CHR 0x09, CHR 0x09] @ ''--'' @ [CHR 0x09] @ ''A'']) + 1
   \<and> deepest (nonblank [[CHR 0x09, CHR 0x09] @ ''--'' @ [CHR 0x09] @ ''A'']) = 2"
proof -
  have a: "\<not> is_list_tag []"
    by (simp add: is_list_tag_def)
  have b: "\<forall>p \<in> set [[CHR 0x09, CHR 0x09] @ ''--'' @ [CHR 0x09] @ ''A'', ''D''].
      \<not> is_list_tag (''<p>'' @ html_escape p @ ''</p>'')"
    by (simp add: is_list_tag_def)
  have c: "docx_fragments [[CHR 0x09, CHR 0x09] @ ''--'' @ [CHR 0x09] @ ''A'', ''D''] [] []
        ''<p>'' ''</p>'' =
       [''<ul>'', ''<ul>'', ''<ul>'', ''<li>A</li>'', ''</ul>'', ''</ul>'', ''</ul>'', ''<p>D</p>'']"
    by code_simp
  have d: "deepest (nonblank [[CHR 0x09, CHR 0x09] @ ''--'' @ [CHR 0x09] @ ''A'']) = 2"
    by code_simp
  from list_stack_discipline [of "[[CHR 0x09, CHR 0x09] @ ''--'' @ [CHR 0x09] @ ''A'']" "[]"
      "''<p>''" "''</p>''" "[''D'']"
      "[[CHR 0x09, CHR 0x09] @ ''--'' @ [CHR 0x09] @ ''A'', ''D'']" "[]"] a b
  have "tag_scan []
     (docx_fragments [[CHR 0x09, CHR 0x09] @ ''--'' @ [CHR 0x09] @ ''A'', ''D''] [] []
        ''<p>'' ''</p>'') = Some []"
    and "length (list_stack (convert_paragraphs [[CHR 0x09, CHR 0x09] @ ''--'' @ [CHR 0x09] @ ''A'']
        [] ''<p>'' ''</p>'')) \<le> deepest (nonblank [[CHR 0x09, CHR 0x09] @ ''--'' @ [CHR 0x09] @ ''A'']) + 1"
    by blast+
  with c d show ?thesis
    by (intro conjI)
qed

text \<open>
  Claim C8, as stated, bounds the depth by the largest indentation seen. A bullet without
  a leading tab has indentation 0 and opens one list.
\<close>

theorem depth_exceeds_indentation:
  "length (list_stack (convert_paragraphs [''--'' @ [CHR 0x09] @ ''A''] [] ''<p>'' ''</p>'')) = 1
   \<and> deepest (nonblank [''--'' @ [CHR 0x09] @ ''A'']) = 0
   \<and> indent_level (''--'' @ [CHR 0x09] @ ''A'') = 0"
  by code_simp

section \<open>Blank lines in the Markdown Converter\<close>


lemma close_paragraph_flags [simp]:
  "in_paragraph (close_paragraph st) = False"
  "in_list (close_paragraph st) = in_list st"
  "in_ordered_list (close_paragraph st) = in_ordered_list st"
  by (simp_all add: close_paragraph_def append_line_def)

lemma close_list_flags [simp]:
  "in_paragraph (close_list st) = in_paragraph st"
  "in_list (close_list st) = False"
  "in_ordered_list (close_list st) = False"
  by (simp_all add: close_list_def append_line_def Let_def)

lemma append_line_flags [simp]:
  "in_paragraph (append_line l st) = in_paragraph st"
  "in_list (append_line l st) = in_list st"
  "in_ordered_list (append_line l st) = in_ordered_list st"
  "html_lines (append_line l st) = html_lines st @ [l]"
  by (simp_all add: append_line_def)










end
